theory Spec2Isabelle
  imports Complex_Main
begin

section \<open>Python values, exceptions and the random source\<close>

text \<open>
  The notebook \<^verbatim>\<open>Multi_Armed_Bandits_Tutorial.ipynb\<close> defines one complete strategy
  (\<^verbatim>\<open>RandomAlg\<close>), the simulator \<^verbatim>\<open>run_simulation\<close>, and five strategy classes whose
  methods consist of a docstring and a \<^verbatim>\<open>TODO\<close> comment only. Floats are modelled as
  reals: the code stores and passes rewards, it never computes with them.
\<close>

datatype error = ValueError | IndexError | OverflowError

datatype pyval = PyNone | PyInt int | PyFloat real | PyList "pyval list"

text \<open>An instance of a class is its attribute dictionary, in insertion order.\<close>

type_synonym pyobj = "(string \<times> pyval) list"

definition setattr :: "pyobj \<Rightarrow> string \<Rightarrow> pyval \<Rightarrow> pyobj" where
  "setattr obj name v =
     (if name \<in> fst ` set obj then map (\<lambda>(n, x). if n = name then (n, v) else (n, x)) obj
      else obj @ [(name, v)])"

text \<open>
  The module-level globals that the modelled code reads or writes: \<^verbatim>\<open>k\<close> (set to 10 in
  the notebook) and the state of the process-wide generator behind \<^verbatim>\<open>np.random\<close>, which
  \<^verbatim>\<open>scipy.stats.norm.rvs\<close> draws from as well.
\<close>

record 'g globals =
  k :: int
  np_random :: 'g

text \<open>
  numpy's generator is an external library. Its three operations are parameters of the
  model: the draw behind \<^verbatim>\<open>randint(low, high)\<close>, the draw behind a normal variate with
  the given \<^verbatim>\<open>loc\<close> and \<^verbatim>\<open>scale\<close>, and the state that \<^verbatim>\<open>seed\<close> installs.
\<close>

record 'g numpy =
  draw_randint :: "'g \<Rightarrow> int \<Rightarrow> int \<Rightarrow> int \<times> 'g"
  draw_normal :: "'g \<Rightarrow> real \<Rightarrow> real \<Rightarrow> real \<times> 'g"
  seeded :: "int \<Rightarrow> 'g"

text \<open>
  \<^verbatim>\<open>np.random.randint(low, high)\<close> draws a 64-bit integer: it raises ValueError unless
  \<^verbatim>\<open>low < high\<close> and both bounds fit, that is \<^verbatim>\<open>-2**63 <= low\<close> and \<^verbatim>\<open>high <= 2**63\<close>.
\<close>

definition np_random_randint :: "'g numpy \<Rightarrow> int \<Rightarrow> int \<Rightarrow> 'g globals \<Rightarrow> (error + int) \<times> 'g globals" where
  "np_random_randint lib low high w =
     (if low < high \<and> - (2 ^ 63) \<le> low \<and> high \<le> 2 ^ 63
      then (case draw_randint lib (np_random w) low high of
              (i, g) \<Rightarrow> (Inr i, w\<lparr>np_random := g\<rparr>))
      else (Inl ValueError, w))"

definition norm_rvs :: "'g numpy \<Rightarrow> real \<Rightarrow> real \<Rightarrow> 'g globals \<Rightarrow> real \<times> 'g globals" where
  "norm_rvs lib loc scale w =
     (case draw_normal lib (np_random w) loc scale of
        (x, g) \<Rightarrow> (x, w\<lparr>np_random := g\<rparr>))"

text \<open>\<^verbatim>\<open>np.random.seed(s)\<close> accepts \<^verbatim>\<open>0 <= s < 2**32\<close> and replaces the generator state.\<close>

definition np_random_seed :: "'g numpy \<Rightarrow> int \<Rightarrow> 'g globals \<Rightarrow> (error + unit) \<times> 'g globals" where
  "np_random_seed lib s w =
     (if 0 \<le> s \<and> s < 2 ^ 32 then (Inr (), w\<lparr>np_random := seeded lib s\<rparr>)
      else (Inl ValueError, w))"

text \<open>
  The contract of \<^verbatim>\<open>randint\<close> that the model relies on where a claim speaks of the
  range of the arms drawn: the result lies in \<^verbatim>\<open>[low, high)\<close>.
\<close>

definition randint_in_range :: "'g numpy \<Rightarrow> bool" where
  "randint_in_range lib \<longleftrightarrow>
     (\<forall>g low high. low < high \<longrightarrow>
        low \<le> fst (draw_randint lib g low high) \<and> fst (draw_randint lib g low high) < high)"

section \<open>numpy arrays on a heap\<close>

text \<open>
  Arrays are objects passed by reference, so they live in a store: address \<open>a\<close> is the
  \<open>a\<close>-th array allocated. \<^verbatim>\<open>np.zeros(n)\<close> allocates a fresh array of \<open>n\<close> floats of
  8 bytes. It raises ValueError for a negative \<open>n\<close> and for an \<open>n\<close> whose \<open>8 n\<close> bytes do not
  fit a signed 64-bit size, that is from \<open>2^60\<close> on. Whether the machine has the memory for
  a smaller array is a matter of the platform and is not modelled.
\<close>

type_synonym heap = "real list list"

definition np_zeros :: "int \<Rightarrow> heap \<Rightarrow> (error + nat) \<times> heap" where
  "np_zeros n h =
     (if n < 0 \<or> 2 ^ 60 \<le> n then (Inl ValueError, h)
      else (Inr (length h), h @ [replicate (nat n) 0]))"

text \<open>
  Reading \<^verbatim>\<open>a[i]\<close> from a one-dimensional array with a Python integer: indices in
  \<^verbatim>\<open>[-len, len)\<close> are valid, a negative one counts from the end. Any other index raises:
  OverflowError when it lies in \<^verbatim>\<open>[2**63, 2**64)\<close>, past the signed 64-bit index type,
  and IndexError otherwise.
\<close>

definition index_exception :: "int \<Rightarrow> error" where
  "index_exception i = (if 2 ^ 63 \<le> i \<and> i < 2 ^ 64 then OverflowError else IndexError)"

definition np_getitem :: "real list \<Rightarrow> int \<Rightarrow> error + real" where
  "np_getitem xs i =
     (let n = int (length xs)
      in if - n \<le> i \<and> i < n then Inr (xs ! nat (if i < 0 then i + n else i))
         else Inl (index_exception i))"

definition valid_index :: "real list \<Rightarrow> int \<Rightarrow> bool" where
  "valid_index xs i \<longleftrightarrow> - int (length xs) \<le> i \<and> i < int (length xs)"

text \<open>Writing \<^verbatim>\<open>a[t] = v\<close> in place, for the index \<open>t \<ge> 0\<close> of a \<^verbatim>\<open>range\<close> loop.\<close>

definition np_setitem :: "nat \<Rightarrow> nat \<Rightarrow> real \<Rightarrow> heap \<Rightarrow> (error + unit) \<times> heap" where
  "np_setitem a t v h =
     (if t < length (h ! a) then (Inr (), h[a := (h ! a)[t := v]])
      else (Inl IndexError, h))"

section \<open>The strategy interface\<close>

text \<open>
  \<^verbatim>\<open>run_simulation\<close> calls three methods on the object it is handed. A method receives
  the object's state and the globals, and returns its outcome (a value, or the exception
  it raised) with both as it left them. The signatures follow the annotations of the
  source: \<^verbatim>\<open>choose_arm(self) -> int\<close>, \<^verbatim>\<open>observe_reward(self, arm: int, reward: float)\<close>.
\<close>

record ('s, 'g) algorithm =
  reset :: "'s \<Rightarrow> 'g globals \<Rightarrow> (error + unit) \<times> 's \<times> 'g globals"
  choose_arm :: "'s \<Rightarrow> 'g globals \<Rightarrow> (error + int) \<times> 's \<times> 'g globals"
  observe_reward :: "int \<Rightarrow> real \<Rightarrow> 's \<Rightarrow> 'g globals \<Rightarrow> (error + unit) \<times> 's \<times> 'g globals"

subsection \<open>RandomAlg\<close>

definition RandomAlg_init :: "pyobj" where
  "RandomAlg_init = []"

definition RandomAlg_reset :: "pyobj \<Rightarrow> 'g globals \<Rightarrow> (error + unit) \<times> pyobj \<times> 'g globals" where
  "RandomAlg_reset self w = (Inr (), self, w)"

definition RandomAlg_choose_arm :: "'g numpy \<Rightarrow> pyobj \<Rightarrow> 'g globals \<Rightarrow> (error + int) \<times> pyobj \<times> 'g globals" where
  "RandomAlg_choose_arm lib self w =
     (case np_random_randint lib 0 (k w) w of (r, w') \<Rightarrow> (r, self, w'))"

definition RandomAlg_observe_reward :: "int \<Rightarrow> real \<Rightarrow> pyobj \<Rightarrow> 'g globals \<Rightarrow> (error + unit) \<times> pyobj \<times> 'g globals" where
  "RandomAlg_observe_reward arm reward self w = (Inr (), self, w)"

definition RandomAlg :: "'g numpy \<Rightarrow> (pyobj, 'g) algorithm" where
  "RandomAlg lib =
     \<lparr>reset = RandomAlg_reset,
      choose_arm = RandomAlg_choose_arm lib,
      observe_reward = RandomAlg_observe_reward\<rparr>"

subsection \<open>The classes left as exercises\<close>

text \<open>
  \<^verbatim>\<open>__init__\<close> stores the hyperparameter and nothing else. A constructor returns the
  new object or the exception raised while building it.
\<close>

definition ExploreThenCommit_init :: "int \<Rightarrow> error + pyobj" where
  "ExploreThenCommit_init m = Inr (setattr [] ''m'' (PyInt m))"

definition EpsilonGreedy_init :: "real \<Rightarrow> error + pyobj" where
  "EpsilonGreedy_init epsilon = Inr (setattr [] ''epsilon'' (PyFloat epsilon))"

definition UCB1_init :: "real \<Rightarrow> error + pyobj" where
  "UCB1_init C = Inr (setattr [] ''C'' (PyFloat C))"

definition GradientBandit_init :: "real \<Rightarrow> error + pyobj" where
  "GradientBandit_init alpha = Inr (setattr [] ''alpha'' (PyFloat alpha))"

definition GradientBanditBaseline_init :: "real \<Rightarrow> error + pyobj" where
  "GradientBanditBaseline_init alpha = Inr (setattr [] ''alpha'' (PyFloat alpha))"

text \<open>
  The body of each method of \<^verbatim>\<open>ExploreThenCommit\<close> is a docstring followed by a comment:
  the call changes nothing and returns \<^verbatim>\<open>None\<close>, also from \<^verbatim>\<open>choose_arm\<close>, whose
  annotation promises an \<^verbatim>\<open>int\<close>.
\<close>

definition ExploreThenCommit_reset :: "pyobj \<Rightarrow> 'g globals \<Rightarrow> (error + pyval) \<times> pyobj \<times> 'g globals" where
  "ExploreThenCommit_reset self w = (Inr PyNone, self, w)"

definition ExploreThenCommit_choose_arm :: "pyobj \<Rightarrow> 'g globals \<Rightarrow> (error + pyval) \<times> pyobj \<times> 'g globals" where
  "ExploreThenCommit_choose_arm self w = (Inr PyNone, self, w)"

definition ExploreThenCommit_observe_reward :: "int \<Rightarrow> real \<Rightarrow> pyobj \<Rightarrow> 'g globals \<Rightarrow> (error + pyval) \<times> pyobj \<times> 'g globals" where
  "ExploreThenCommit_observe_reward arm reward self w = (Inr PyNone, self, w)"

subsection \<open>The pull counts of the specification\<close>

text \<open>
  The specification's data model gives every strategy per-arm pull counts, a sequence of
  integers whose sum is the number of rewards observed. Read on an object of the source,
  whose attributes the specification does not name: some attribute holds a sequence of
  integers that sums to \<open>n\<close>.
\<close>

fun int_items :: "pyval list \<Rightarrow> int list option" where
  "int_items [] = Some []"
| "int_items (v # vs) =
     (case v of
        PyInt i \<Rightarrow> (case int_items vs of None \<Rightarrow> None | Some is \<Rightarrow> Some (i # is))
      | _ \<Rightarrow> None)"

definition spec_counts_sum_to :: "pyobj \<Rightarrow> int \<Rightarrow> bool" where
  "spec_counts_sum_to obj n \<longleftrightarrow>
     list_ex (\<lambda>(name, v).
        case v of
          PyList vs \<Rightarrow> (case int_items vs of None \<Rightarrow> False | Some cs \<Rightarrow> sum_list cs = n)
        | _ \<Rightarrow> False) obj"

section \<open>The simulator\<close>

text \<open>
  What a run can touch: the strategy object, the globals and the array store. An
  exception leaves all three as they were when it was raised.
\<close>

record ('s, 'g) machine =
  self :: 's
  glob :: "'g globals"
  arrays :: heap

text \<open>
  One pass through the body of the loop, for loop index \<open>t\<close>; \<open>tam\<close> is the reference
  \<^verbatim>\<open>true_arm_means\<close> and \<open>rewards\<close> the reference to the array being filled.
\<close>

definition loop_body :: "'g numpy \<Rightarrow> ('s, 'g) algorithm \<Rightarrow> nat \<Rightarrow> nat \<Rightarrow> nat \<Rightarrow> ('s, 'g) machine \<Rightarrow> (error + unit) \<times> ('s, 'g) machine" where
  "loop_body lib alg tam rewards t st =
     (case choose_arm alg (self st) (glob st) of
        (Inl e, s1, w1) \<Rightarrow> (Inl e, st\<lparr>self := s1, glob := w1\<rparr>)
      | (Inr arm, s1, w1) \<Rightarrow>
          (case np_getitem (arrays st ! tam) arm of
             Inl e \<Rightarrow> (Inl e, st\<lparr>self := s1, glob := w1\<rparr>)
           | Inr loc \<Rightarrow>
               (case norm_rvs lib loc 1 w1 of
                  (reward, w2) \<Rightarrow>
                    (case observe_reward alg arm reward s1 w2 of
                       (Inl e, s3, w3) \<Rightarrow> (Inl e, st\<lparr>self := s3, glob := w3\<rparr>)
                     | (Inr u, s3, w3) \<Rightarrow>
                         (case np_setitem rewards t reward (arrays st) of
                            (r, h) \<Rightarrow> (r, \<lparr>self = s3, glob = w3, arrays = h\<rparr>))))))"

text \<open>\<^verbatim>\<open>for t in range(n)\<close>: the body runs for each index in turn and stops at an exception.\<close>

fun for_range :: "'g numpy \<Rightarrow> ('s, 'g) algorithm \<Rightarrow> nat \<Rightarrow> nat \<Rightarrow> nat list \<Rightarrow> ('s, 'g) machine \<Rightarrow> (error + unit) \<times> ('s, 'g) machine" where
  "for_range lib alg tam rewards [] st = (Inr (), st)"
| "for_range lib alg tam rewards (t # ts) st =
     (case loop_body lib alg tam rewards t st of
        (Inl e, st') \<Rightarrow> (Inl e, st')
      | (Inr u, st') \<Rightarrow> for_range lib alg tam rewards ts st')"

text \<open>
  \<^verbatim>\<open>run_simulation(algorithm, true_arm_means, n)\<close>. The result is the reference to the
  array \<^verbatim>\<open>rewards\<close>, or the exception that ended the run. The horizon is always
  passed: the default \<^verbatim>\<open>n = 1000\<close> of the source is the caller's to supply.
\<close>

definition run_simulation :: "'g numpy \<Rightarrow> ('s, 'g) algorithm \<Rightarrow> nat \<Rightarrow> int \<Rightarrow> ('s, 'g) machine \<Rightarrow> (error + nat) \<times> ('s, 'g) machine" where
  "run_simulation lib alg tam n st =
     (case np_zeros n (arrays st) of
        (Inl e, h) \<Rightarrow> (Inl e, st\<lparr>arrays := h\<rparr>)
      | (Inr rewards, h) \<Rightarrow>
          (case reset alg (self st) (glob st) of
             (Inl e, s, w) \<Rightarrow> (Inl e, \<lparr>self = s, glob = w, arrays = h\<rparr>)
           | (Inr u, s, w) \<Rightarrow>
               (case for_range lib alg tam rewards [0..<nat n] \<lparr>self = s, glob = w, arrays = h\<rparr> of
                  (Inl e, st') \<Rightarrow> (Inl e, st')
                | (Inr u', st') \<Rightarrow> (Inr rewards, st'))))"

text \<open>
  What the caller of a run receives: the contents of the array returned, or the exception.
\<close>

definition reward_trace :: "(error + nat) \<times> ('s, 'g) machine \<Rightarrow> error + real list" where
  "reward_trace res =
     (case fst res of Inl e \<Rightarrow> Inl e | Inr a \<Rightarrow> Inr (arrays (snd res) ! a))"

section \<open>Observing the calls a run makes\<close>

text \<open>
  To state in which order the simulator calls the strategy, the strategy is wrapped so
  that it keeps a log beside its own state: every call is appended, \<^verbatim>\<open>choose_arm\<close> with
  its outcome and the generator state it left, \<^verbatim>\<open>observe_reward\<close> with its arguments
  and the generator state it found.
\<close>

datatype 'g call =
  Reset_called
| Choose_arm_called "error + int" 'g
| Observe_reward_called int real 'g

definition spy :: "('s, 'g) algorithm \<Rightarrow> ('s \<times> 'g call list, 'g) algorithm" where
  "spy alg =
     \<lparr>reset = (\<lambda>(s, log) w. case reset alg s w of
                 (r, s', w') \<Rightarrow> (r, (s', log @ [Reset_called]), w')),
      choose_arm = (\<lambda>(s, log) w. case choose_arm alg s w of
                 (r, s', w') \<Rightarrow> (r, (s', log @ [Choose_arm_called r (np_random w')]), w')),
      observe_reward = (\<lambda>arm reward (s, log) w. case observe_reward alg arm reward s w of
                 (r, s', w') \<Rightarrow> (r, (s', log @ [Observe_reward_called arm reward (np_random w)]), w'))\<rparr>"




text \<open>
  A logged call is accepted on a problem instance unless it carries an arm that is not a
  valid index of the mean vector.
\<close>

definition accepted :: "real list \<Rightarrow> 'g call \<Rightarrow> bool" where
  "accepted means c =
     (case c of
        Reset_called \<Rightarrow> True
      | Choose_arm_called r g \<Rightarrow> (case r of Inl e \<Rightarrow> True | Inr arm \<Rightarrow> valid_index means arm)
      | Observe_reward_called arm reward g \<Rightarrow> valid_index means arm)"

text \<open>A logged call that chose an arm chose it in \<open>[0, bound)\<close>.\<close>

definition chosen_below :: "int \<Rightarrow> 'g call \<Rightarrow> bool" where
  "chosen_below bound c =
     (case c of
        Reset_called \<Rightarrow> True
      | Choose_arm_called r g \<Rightarrow> (case r of Inl e \<Rightarrow> True | Inr arm \<Rightarrow> 0 \<le> arm \<and> arm < bound)
      | Observe_reward_called arm reward g \<Rightarrow> True)"

definition unspy :: "('s \<times> 'g call list, 'g) machine \<Rightarrow> ('s, 'g) machine" where
  "unspy st = \<lparr>self = fst (self st), glob = glob st, arrays = arrays st\<rparr>"

text \<open>
  A strategy that chooses the same arm at every step and ignores what it observes, as a
  concrete input for the simulator.
\<close>

definition fixed_arm :: "int \<Rightarrow> (unit, 'g) algorithm" where
  "fixed_arm arm =
     \<lparr>reset = (\<lambda>s w. (Inr (), s, w)),
      choose_arm = (\<lambda>s w. (Inr arm, s, w)),
      observe_reward = (\<lambda>a x s w. (Inr (), s, w))\<rparr>"

text \<open>
  A deterministic generator over a counter, to evaluate the definitions on concrete
  inputs: \<^verbatim>\<open>randint\<close> walks through \<^verbatim>\<open>[low, high)\<close>, a normal draw is \<^verbatim>\<open>loc\<close> shifted by
  a multiple of \<^verbatim>\<open>scale\<close> between \<open>-2\<close> and \<open>2\<close>.
\<close>

definition counter_numpy :: "nat numpy" where
  "counter_numpy =
     \<lparr>draw_randint = (\<lambda>g low high. (low + int g mod (high - low), g + 1)),
      draw_normal = (\<lambda>g loc scale. (loc + scale * (real (g mod 5) - 2), g + 2)),
      seeded = (\<lambda>s. nat s)\<rparr>"

section \<open>The loop of the simulator\<close>


lemma np_getitem_valid:
  "valid_index xs i \<Longrightarrow> \<exists>loc. np_getitem xs i = Inr loc"
  by (simp add: np_getitem_def valid_index_def Let_def)

lemma np_getitem_invalid:
  "\<not> valid_index xs i \<Longrightarrow> np_getitem xs i = Inl (index_exception i)"
  by (auto simp: np_getitem_def valid_index_def Let_def)

lemma np_getitem_Inr_valid:
  "np_getitem xs i = Inr loc \<Longrightarrow> valid_index xs i"
  by (auto simp: np_getitem_def valid_index_def Let_def split: if_splits)

text \<open>The wrapped strategy drives the simulator exactly as the strategy itself does.\<close>

lemma loop_body_unspy:
  "loop_body lib alg tam rewards t (unspy st) =
     map_prod id unspy (loop_body lib (spy alg) tam rewards t st)"
  by (cases st; cases "self st")
     (auto simp: loop_body_def spy_def unspy_def split: prod.splits sum.splits)

lemma for_range_unspy:
  "for_range lib alg tam rewards ts (unspy st) =
     map_prod id unspy (for_range lib (spy alg) tam rewards ts st)"
proof (induction ts arbitrary: st)
  case Nil
  show ?case by simp
next
  case (Cons t ts)
  show ?case
    using Cons.IH loop_body_unspy [of lib alg tam rewards t st]
    by (auto split: prod.splits sum.splits)
qed

lemma run_simulation_unspy:
  "run_simulation lib alg tam n (unspy st) =
     map_prod id unspy (run_simulation lib (spy alg) tam n st)"
proof (cases "n < 0 \<or> 2 ^ 60 \<le> n")
  case True
  then show ?thesis
    by (simp add: run_simulation_def np_zeros_def unspy_def)
next
  case False
  obtain s l where sl: "self st = (s, l)" by (cases "self st")
  obtain r s' w' where rs: "reset alg s (glob st) = (r, s', w')"
    by (cases "reset alg s (glob st)")
  let ?h = "arrays st @ [replicate (nat n) 0]"
  have u: "\<lparr>self = s', glob = w', arrays = ?h\<rparr>
         = unspy \<lparr>self = (s', l @ [Reset_called]), glob = w', arrays = ?h\<rparr>"
    by (simp add: unspy_def)
  show ?thesis
  proof (cases r)
    case (Inl e)
    with False sl rs show ?thesis
      by (simp add: run_simulation_def np_zeros_def unspy_def spy_def)
  next
    case (Inr v)
    obtain r2 st2 where fr: "for_range lib (spy alg) tam (length (arrays st)) [0..<nat n]
          \<lparr>self = (s', l @ [Reset_called]), glob = w', arrays = ?h\<rparr> = (r2, st2)"
      by (cases "for_range lib (spy alg) tam (length (arrays st)) [0..<nat n]
          \<lparr>self = (s', l @ [Reset_called]), glob = w', arrays = ?h\<rparr>")
    have fr': "for_range lib alg tam (length (arrays st)) [0..<nat n]
          \<lparr>self = s', glob = w', arrays = ?h\<rparr> = (r2, unspy st2)"
      using for_range_unspy [of lib alg tam "length (arrays st)" "[0..<nat n]"
          "\<lparr>self = (s', l @ [Reset_called]), glob = w', arrays = ?h\<rparr>"] fr
      by (simp add: u [symmetric])
    have lhs: "run_simulation lib alg tam n (unspy st)
        = (case r2 of Inl e \<Rightarrow> (Inl e, unspy st2) | Inr x \<Rightarrow> (Inr (length (arrays st)), unspy st2))"
      using False sl rs Inr fr'
      by (simp add: run_simulation_def np_zeros_def unspy_def split: sum.splits)
    have rhs: "run_simulation lib (spy alg) tam n st
        = (case r2 of Inl e \<Rightarrow> (Inl e, st2) | Inr x \<Rightarrow> (Inr (length (arrays st)), st2))"
      using False sl rs Inr fr
      by (simp add: run_simulation_def np_zeros_def spy_def split: sum.splits)
    show ?thesis
      by (simp add: lhs rhs split: sum.splits)
  qed
qed

section \<open>Runs that return\<close>





lemmas eval_defs = run_simulation_def loop_body_def np_zeros_def np_getitem_def np_setitem_def
  index_exception_def
  norm_rvs_def np_random_randint_def RandomAlg_def RandomAlg_choose_arm_def RandomAlg_reset_def
  RandomAlg_observe_reward_def RandomAlg_init_def counter_numpy_def spy_def fixed_arm_def Let_def




section \<open>What a run leaves untouched\<close>

lemma loop_body_take:
  "take rw (arrays (snd (loop_body lib alg tam rw t st))) = take rw (arrays st)"
  by (auto simp: loop_body_def np_setitem_def split: prod.splits sum.splits)

lemma for_range_take:
  "take rw (arrays (snd (for_range lib alg tam rw ts st))) = take rw (arrays st)"
proof (induction ts arbitrary: st)
  case Nil
  show ?case by simp
next
  case (Cons t ts)
  obtain r1 st1 where lb: "loop_body lib alg tam rw t st = (r1, st1)"
    by (cases "loop_body lib alg tam rw t st")
  have t1: "take rw (arrays st1) = take rw (arrays st)"
    using loop_body_take [of rw lib alg tam t st] lb by simp
  show ?case
  proof (cases r1)
    case (Inl e)
    with lb t1 show ?thesis by simp
  next
    case (Inr u)
    with lb t1 Cons.IH [of st1] show ?thesis by simp
  qed
qed

lemma run_simulation_take:
  "take (length (arrays st)) (arrays (snd (run_simulation lib alg tam n st))) = arrays st"
proof (cases "n < 0 \<or> 2 ^ 60 \<le> n")
  case True
  then show ?thesis by (simp add: run_simulation_def np_zeros_def)
next
  case False
  let ?h = "arrays st @ [replicate (nat n) 0]"
  obtain r s w where rs: "reset alg (self st) (glob st) = (r, s, w)"
    by (cases "reset alg (self st) (glob st)")
  show ?thesis
  proof (cases r)
    case (Inl e)
    with False rs show ?thesis by (simp add: run_simulation_def np_zeros_def)
  next
    case (Inr u)
    let ?st = "\<lparr>self = s, glob = w, arrays = ?h\<rparr>"
    have "take (length (arrays st)) (arrays (snd (for_range lib alg tam (length (arrays st)) [0..<nat n] ?st)))
        = arrays st"
      using for_range_take [of "length (arrays st)" lib alg tam "[0..<nat n]" ?st] by simp
    with False rs Inr show ?thesis
      by (cases "for_range lib alg tam (length (arrays st)) [0..<nat n] ?st")
         (auto simp: run_simulation_def np_zeros_def split: sum.splits)
  qed
qed

text \<open>
  C8. A run never writes to an array that existed before it started: whatever the
  strategy, the horizon and the outcome, the vector of true arm means is the same after
  the run as before. The only array the run writes is the one it allocates itself.
\<close>

theorem run_simulation_keeps_true_arm_means:
  assumes "tam < length (arrays st)"
  shows "arrays (snd (run_simulation lib alg tam n st)) ! tam = arrays st ! tam
       \<and> take (length (arrays st)) (arrays (snd (run_simulation lib alg tam n st))) = arrays st"
proof -
  have t: "take (length (arrays st)) (arrays (snd (run_simulation lib alg tam n st))) = arrays st"
    by (rule run_simulation_take)
  have "take (length (arrays st)) (arrays (snd (run_simulation lib alg tam n st))) ! tam
      = arrays (snd (run_simulation lib alg tam n st)) ! tam"
    using assms by simp
  with t show ?thesis by simp
qed

theorem run_simulation_keeps_true_arm_means_witness:
  "(0::nat) < length [[0, 5::real]]
   \<and> arrays (snd (run_simulation counter_numpy (RandomAlg counter_numpy) 0 2
        \<lparr>self = RandomAlg_init, glob = \<lparr>k = 2, np_random = 0\<rparr>, arrays = [[0, 5]]\<rparr>)) ! 0 = [0, 5]"
proof -
  let ?st = "\<lparr>self = RandomAlg_init, glob = \<lparr>k = 2, np_random = 0::nat\<rparr>, arrays = [[0, 5]]\<rparr>"
  have h: "(0::nat) < length (arrays ?st)" by simp
  from run_simulation_keeps_true_arm_means [OF h, of counter_numpy "RandomAlg counter_numpy" 2]
  show ?thesis by simp
qed

text \<open>
  C9. With horizon 0 a run allocates the empty array and calls \<^verbatim>\<open>reset\<close>; when that
  call returns, the run returns the empty array, and \<^verbatim>\<open>reset\<close> is the only call the
  strategy has received: neither \<^verbatim>\<open>choose_arm\<close> nor \<^verbatim>\<open>observe_reward\<close> is called and no
  reward is drawn.
\<close>

theorem run_simulation_zero_horizon:
  assumes "reset alg s w = (Inr (), s', w')"
  shows "run_simulation lib (spy alg) tam 0 \<lparr>self = (s, calls), glob = w, arrays = h\<rparr>
       = (Inr (length h), \<lparr>self = (s', calls @ [Reset_called]), glob = w', arrays = h @ [[]]\<rparr>)"
  using assms by (simp add: run_simulation_def np_zeros_def spy_def)

theorem run_simulation_zero_horizon_witness:
  "reset (RandomAlg counter_numpy) RandomAlg_init \<lparr>k = 10, np_random = 7\<rparr>
     = (Inr (), RandomAlg_init, \<lparr>k = 10, np_random = 7\<rparr>)
   \<and> run_simulation counter_numpy (spy (RandomAlg counter_numpy)) 0 0
        \<lparr>self = (RandomAlg_init, []), glob = \<lparr>k = 10, np_random = 7\<rparr>, arrays = [[0, 5]]\<rparr>
     = (Inr 1, \<lparr>self = (RandomAlg_init, [Reset_called]), glob = \<lparr>k = 10, np_random = 7\<rparr>,
          arrays = [[0, 5], []]\<rparr>)"
proof -
  have h: "reset (RandomAlg counter_numpy) RandomAlg_init \<lparr>k = 10, np_random = 7::nat\<rparr>
     = (Inr (), RandomAlg_init, \<lparr>k = 10, np_random = 7\<rparr>)"
    by (simp add: RandomAlg_def RandomAlg_reset_def)
  from run_simulation_zero_horizon [OF h, of counter_numpy 0 "[]" "[[0, 5]]"] h
  show ?thesis by simp
qed

section \<open>Arms that are not valid indices\<close>

lemma loop_body_spy_calls:
  assumes "loop_body lib (spy alg) tam rw t st = (r, st')"
  shows "\<exists>new. snd (self st') = snd (self st) @ new
         \<and> (list_all (accepted (arrays st ! tam)) new
            \<or> (\<exists>arm. new = [Choose_arm_called (Inr arm) (np_random (glob st'))]
                 \<and> \<not> valid_index (arrays st ! tam) arm \<and> r = Inl (index_exception arm)))
         \<and> (\<forall>u. r = Inr u \<longrightarrow> list_all (accepted (arrays st ! tam)) new)"
proof -
  obtain s l where sl: "self st = (s, l)" by (cases "self st")
  obtain r1 s1 w1 where c: "choose_arm alg s (glob st) = (r1, s1, w1)"
    by (cases "choose_arm alg s (glob st)")
  show ?thesis
  proof (cases r1)
    case (Inl e)
    with assms sl c have "snd (self st') = snd (self st) @ [Choose_arm_called (Inl e) (np_random w1)]"
      and "r = Inl e"
      by (auto simp: loop_body_def spy_def)
    then show ?thesis by (auto simp: accepted_def)
  next
    case (Inr arm)
    show ?thesis
    proof (cases "valid_index (arrays st ! tam) arm")
      case False
      from np_getitem_invalid [OF False] assms sl c Inr
      have "snd (self st') = snd (self st) @ [Choose_arm_called (Inr arm) (np_random (glob st'))]"
        and "r = Inl (index_exception arm)"
        by (auto simp: loop_body_def spy_def)
      with False show ?thesis by auto
    next
      case True
      from np_getitem_valid [OF True] obtain loc where g: "np_getitem (arrays st ! tam) arm = Inr loc"
        by blast
      obtain x g2 where d: "draw_normal lib (np_random w1) loc 1 = (x, g2)"
        by (cases "draw_normal lib (np_random w1) loc 1")
      from assms sl c Inr g d have
        "snd (self st') = snd (self st) @ [Choose_arm_called (Inr arm) (np_random w1),
            Observe_reward_called arm x g2]"
        by (auto simp: loop_body_def spy_def norm_rvs_def split: prod.splits sum.splits)
      with True show ?thesis by (auto simp: accepted_def)
    qed
  qed
qed

lemma for_range_keeps_means:
  assumes "tam < rw"
  shows "arrays (snd (for_range lib alg tam rw ts st)) ! tam = arrays st ! tam"
proof -
  have "take rw (arrays (snd (for_range lib alg tam rw ts st))) ! tam = take rw (arrays st) ! tam"
    by (simp only: for_range_take)
  with assms show ?thesis by simp
qed

lemma loop_body_keeps_means:
  assumes "tam < rw"
  shows "arrays (snd (loop_body lib alg tam rw t st)) ! tam = arrays st ! tam"
proof -
  have "take rw (arrays (snd (loop_body lib alg tam rw t st))) ! tam = take rw (arrays st) ! tam"
    by (simp only: loop_body_take)
  with assms show ?thesis by simp
qed

lemma for_range_spy_calls:
  assumes "for_range lib (spy alg) tam rw ts st = (r, st')" and "tam < rw"
  shows "\<exists>new. snd (self st') = snd (self st) @ new
         \<and> (list_all (accepted (arrays st ! tam)) new
            \<or> (\<exists>pre arm. new = pre @ [Choose_arm_called (Inr arm) (np_random (glob st'))]
                 \<and> list_all (accepted (arrays st ! tam)) pre
                 \<and> \<not> valid_index (arrays st ! tam) arm \<and> r = Inl (index_exception arm)))"
  using assms(1)
proof (induction ts arbitrary: st)
  case Nil
  then show ?case by simp
next
  case (Cons t ts)
  obtain r1 st1 where lb: "loop_body lib (spy alg) tam rw t st = (r1, st1)"
    by (cases "loop_body lib (spy alg) tam rw t st")
  from loop_body_spy_calls [OF lb] obtain new1 where
    l1: "snd (self st1) = snd (self st) @ new1"
    and d1: "list_all (accepted (arrays st ! tam)) new1
            \<or> (\<exists>arm. new1 = [Choose_arm_called (Inr arm) (np_random (glob st1))]
                 \<and> \<not> valid_index (arrays st ! tam) arm \<and> r1 = Inl (index_exception arm))"
    and ok1: "\<forall>u. r1 = Inr u \<longrightarrow> list_all (accepted (arrays st ! tam)) new1"
    by blast
  show ?case
  proof (cases r1)
    case (Inl e)
    with Cons.prems lb have e: "r = r1" "st' = st1" by auto
    from d1 show ?thesis
    proof
      assume "list_all (accepted (arrays st ! tam)) new1"
      with l1 e show ?thesis by blast
    next
      assume "\<exists>arm. new1 = [Choose_arm_called (Inr arm) (np_random (glob st1))]
                 \<and> \<not> valid_index (arrays st ! tam) arm \<and> r1 = Inl (index_exception arm)"
      then obtain arm where a:
        "new1 = [Choose_arm_called (Inr arm) (np_random (glob st1))]"
        "\<not> valid_index (arrays st ! tam) arm" "r1 = Inl (index_exception arm)"
        by auto
      have "snd (self st') = snd (self st) @ new1
         \<and> (list_all (accepted (arrays st ! tam)) new1
            \<or> (\<exists>pre arm. new1 = pre @ [Choose_arm_called (Inr arm) (np_random (glob st'))]
                 \<and> list_all (accepted (arrays st ! tam)) pre
                 \<and> \<not> valid_index (arrays st ! tam) arm \<and> r = Inl (index_exception arm)))"
        using l1 e a
        by (intro conjI disjI2 exI [of _ "[]"] exI [of _ arm]) simp_all
      then show ?thesis by (rule exI)
    qed
  next
    case (Inr u)
    with Cons.prems lb have fr: "for_range lib (spy alg) tam rw ts st1 = (r, st')" by simp
    have m: "arrays st1 ! tam = arrays st ! tam"
      using loop_body_keeps_means [OF assms(2), of lib "spy alg" t st] lb by simp
    from ok1 Inr have a1: "list_all (accepted (arrays st ! tam)) new1" by simp
    from Cons.IH [OF fr] m obtain new where
      l2: "snd (self st') = snd (self st1) @ new"
      and d2: "list_all (accepted (arrays st ! tam)) new
            \<or> (\<exists>pre arm. new = pre @ [Choose_arm_called (Inr arm) (np_random (glob st'))]
                 \<and> list_all (accepted (arrays st ! tam)) pre
                 \<and> \<not> valid_index (arrays st ! tam) arm \<and> r = Inl (index_exception arm))"
      by auto
    from d2 show ?thesis
    proof
      assume "list_all (accepted (arrays st ! tam)) new"
      with a1 l1 l2 have "snd (self st') = snd (self st) @ (new1 @ new)
          \<and> (list_all (accepted (arrays st ! tam)) (new1 @ new)
            \<or> (\<exists>pre arm. new1 @ new = pre @ [Choose_arm_called (Inr arm) (np_random (glob st'))]
                 \<and> list_all (accepted (arrays st ! tam)) pre
                 \<and> \<not> valid_index (arrays st ! tam) arm \<and> r = Inl (index_exception arm)))"
        by simp
      then show ?thesis by (rule exI)
    next
      assume "\<exists>pre arm. new = pre @ [Choose_arm_called (Inr arm) (np_random (glob st'))]
                 \<and> list_all (accepted (arrays st ! tam)) pre
                 \<and> \<not> valid_index (arrays st ! tam) arm \<and> r = Inl (index_exception arm)"
      then obtain pre arm where b:
        "new = pre @ [Choose_arm_called (Inr arm) (np_random (glob st'))]"
        "list_all (accepted (arrays st ! tam)) pre"
        "\<not> valid_index (arrays st ! tam) arm" "r = Inl (index_exception arm)"
        by blast
      have "snd (self st') = snd (self st) @ (new1 @ new)
         \<and> (list_all (accepted (arrays st ! tam)) (new1 @ new)
            \<or> (\<exists>pre arm. new1 @ new = pre @ [Choose_arm_called (Inr arm) (np_random (glob st'))]
                 \<and> list_all (accepted (arrays st ! tam)) pre
                 \<and> \<not> valid_index (arrays st ! tam) arm \<and> r = Inl (index_exception arm)))"
        using a1 l1 l2 b
        by (intro conjI disjI2 exI [of _ "new1 @ pre"] exI [of _ arm]) simp_all
      then show ?thesis by (rule exI)
    qed
  qed
qed

lemma not_accepted_is_last:
  assumes "c \<in> set (pre @ [d])" "list_all (accepted means) pre" "\<not> accepted means c"
  shows "c = d"
  using assms by (auto simp: list_all_iff)

text \<open>
  C2. When \<^verbatim>\<open>choose_arm\<close> returns an integer that is not a valid index of the mean
  vector, that is one outside \<^verbatim>\<open>[-len, len)\<close>, the run ends there with the exception
  of the indexing, IndexError, or OverflowError for an integer in \<^verbatim>\<open>[2**63, 2**64)\<close>: the
  call is the last one the strategy receives, every call before it carried a valid arm,
  and the generator is in the state in which \<^verbatim>\<open>choose_arm\<close> left it, so no reward was
  drawn for that arm.
\<close>

theorem run_simulation_rejects_invalid_index:
  assumes "tam < length (arrays st)" and "snd (self st) = []"
    and "run_simulation lib (spy alg) tam n st = (r, st')"
    and "Choose_arm_called (Inr arm) g \<in> set (snd (self st'))"
    and "\<not> valid_index (arrays st ! tam) arm"
  shows "r = Inl (if 2 ^ 63 \<le> arm \<and> arm < 2 ^ 64 then OverflowError else IndexError)
       \<and> snd (self st') = butlast (snd (self st')) @ [Choose_arm_called (Inr arm) g]
       \<and> list_all (accepted (arrays st ! tam)) (butlast (snd (self st')))
       \<and> np_random (glob st') = g"
proof -
  let ?means = "arrays st ! tam"
  let ?h = "arrays st @ [replicate (nat n) 0]"
  let ?c = "Choose_arm_called (Inr arm) g"
  have na: "\<not> accepted ?means ?c"
    using assms(5) by (simp add: accepted_def)
  obtain s l where sl: "self st = (s, l)" by (cases "self st")
  with assms(2) have l: "l = []" by simp
  have n0: "\<not> (n < 0 \<or> 2 ^ 60 \<le> n)"
    using assms(2,3,4) by (auto simp: run_simulation_def np_zeros_def split: if_splits)
  obtain r0 s0 w0 where rs: "reset alg s (glob st) = (r0, s0, w0)"
    by (cases "reset alg s (glob st)")
  from n0 assms(3,4) sl l rs obtain u where r0: "r0 = Inr u"
    by (cases r0) (auto simp: run_simulation_def np_zeros_def spy_def)
  let ?st = "\<lparr>self = (s0, [Reset_called]), glob = w0, arrays = ?h\<rparr>"
  obtain r1 st1 where fr: "for_range lib (spy alg) tam (length (arrays st)) [0..<nat n] ?st = (r1, st1)"
    by (cases "for_range lib (spy alg) tam (length (arrays st)) [0..<nat n] ?st")
  from n0 assms(3) sl l rs r0 fr have st1: "st' = st1"
    and r1: "r = (case r1 of Inl e \<Rightarrow> Inl e | Inr v \<Rightarrow> Inr (length (arrays st)))"
    by (auto simp: run_simulation_def np_zeros_def spy_def split: sum.splits)
  have m: "arrays ?st ! tam = ?means"
    using assms(1) by (simp add: nth_append)
  from for_range_spy_calls [OF fr assms(1)] m st1 obtain new where
    l2: "snd (self st') = [Reset_called] @ new"
    and d2: "list_all (accepted ?means) new
            \<or> (\<exists>pre a. new = pre @ [Choose_arm_called (Inr a) (np_random (glob st'))]
                 \<and> list_all (accepted ?means) pre
                 \<and> \<not> valid_index ?means a \<and> r1 = Inl (index_exception a))"
    by auto
  from d2 show ?thesis
  proof
    assume "list_all (accepted ?means) new"
    then have "list_all (accepted ?means) (snd (self st'))"
      using l2 by (simp add: accepted_def)
    with assms(4) na show ?thesis by (auto simp: list_all_iff)
  next
    assume "\<exists>pre a. new = pre @ [Choose_arm_called (Inr a) (np_random (glob st'))]
                 \<and> list_all (accepted ?means) pre
                 \<and> \<not> valid_index ?means a \<and> r1 = Inl (index_exception a)"
    then obtain pre a where b:
      "new = pre @ [Choose_arm_called (Inr a) (np_random (glob st'))]"
      "list_all (accepted ?means) pre" "r1 = Inl (index_exception a)"
      by blast
    let ?pre = "Reset_called # pre"
    let ?d = "Choose_arm_called (Inr a) (np_random (glob st'))"
    have log: "snd (self st') = ?pre @ [?d]"
      using l2 b(1) by simp
    have acc: "list_all (accepted ?means) ?pre"
      using b(2) by (simp add: accepted_def)
    have mem: "?c \<in> set (?pre @ [?d])"
      using assms(4) by (simp only: log)
    have cd: "?c = ?d"
      by (rule not_accepted_is_last [OF mem acc na])
    have bl: "butlast (snd (self st')) = ?pre"
      by (simp only: log butlast_snoc)
    have "r = Inl (if 2 ^ 63 \<le> arm \<and> arm < 2 ^ 64 then OverflowError else IndexError)"
      using r1 b(3) cd by (simp add: index_exception_def)
    moreover have "snd (self st') = butlast (snd (self st')) @ [?c]"
      by (simp only: bl cd) (simp only: log)
    moreover have "list_all (accepted ?means) (butlast (snd (self st')))"
      using acc by (simp only: bl)
    moreover have "np_random (glob st') = g"
      using cd by simp
    ultimately show ?thesis by blast
  qed
qed

theorem run_simulation_rejects_invalid_index_witness:
  "(0::nat) < length [[0, 5::real]]
   \<and> run_simulation counter_numpy (spy (fixed_arm 2)) 0 3
        \<lparr>self = ((), []), glob = \<lparr>k = 2, np_random = 4\<rparr>, arrays = [[0, 5]]\<rparr>
     = (Inl IndexError, \<lparr>self = ((), [Reset_called, Choose_arm_called (Inr 2) 4]),
          glob = \<lparr>k = 2, np_random = 4\<rparr>, arrays = [[0, 5], [0, 0, 0]]\<rparr>)
   \<and> \<not> valid_index [0, 5] 2
   \<and> list_all (accepted [0, 5::real]) (butlast [Reset_called, Choose_arm_called (Inr 2) (4::nat)])
   \<and> fst (run_simulation counter_numpy (spy (fixed_arm (2 ^ 63))) 0 3
        \<lparr>self = ((), []), glob = \<lparr>k = 2, np_random = 4\<rparr>, arrays = [[0, 5]]\<rparr>)
     = Inl OverflowError"
proof -
  let ?st = "\<lparr>self = ((), []), glob = \<lparr>k = 2, np_random = 4::nat\<rparr>, arrays = [[0, 5]]\<rparr>"
  let ?st' = "\<lparr>self = ((), [Reset_called, Choose_arm_called (Inr 2) 4]),
          glob = \<lparr>k = 2, np_random = 4::nat\<rparr>, arrays = [[0, 5], [0, 0, 0]]\<rparr>"
  have h1: "(0::nat) < length (arrays ?st)" by simp
  have h2: "snd (self ?st) = []" by simp
  have h3: "run_simulation counter_numpy (spy (fixed_arm 2)) 0 3 ?st = (Inl IndexError, ?st')"
    by (simp add: eval_defs upt_rec [of 0] nat_numeral numeral_3_eq_3)
  have h4: "Choose_arm_called (Inr 2) 4 \<in> set (snd (self ?st'))" by simp
  have h5: "\<not> valid_index (arrays ?st ! 0) 2" by (simp add: valid_index_def)
  have h6: "fst (run_simulation counter_numpy (spy (fixed_arm (2 ^ 63))) 0 3 ?st) = Inl OverflowError"
    by (simp add: eval_defs upt_rec [of 0] nat_numeral numeral_3_eq_3)
  from run_simulation_rejects_invalid_index [OF h1 h2 h3 h4 h5] h3 h5 h6
  show ?thesis by simp
qed

theorem run_simulation_negative_index_counterexample:
  "run_simulation counter_numpy (spy (fixed_arm (- 1))) 0 1
        \<lparr>self = ((), []), glob = \<lparr>k = 2, np_random = 0\<rparr>, arrays = [[0, 5]]\<rparr>
     = (Inr 1, \<lparr>self = ((), [Reset_called, Choose_arm_called (Inr (- 1)) 0,
            Observe_reward_called (- 1) 3 2]),
          glob = \<lparr>k = 2, np_random = 2\<rparr>, arrays = [[0, 5], [3]]\<rparr>)"
  by (simp add: eval_defs upt_rec [of 0])

section \<open>RandomAlg\<close>

lemma RandomAlg_choose_arm_draw:
  assumes "0 < k w" and "k w \<le> 2 ^ 63"
  shows "RandomAlg_choose_arm lib obj w =
           (Inr (fst (draw_randint lib (np_random w) 0 (k w))), obj,
            w\<lparr>np_random := snd (draw_randint lib (np_random w) 0 (k w))\<rparr>)"
  using assms
  by (simp add: RandomAlg_choose_arm_def np_random_randint_def split: prod.splits)

lemma RandomAlg_choose_arm_cases:
  "(\<exists>arm g. RandomAlg_choose_arm lib obj w = (Inr arm, obj, w\<lparr>np_random := g\<rparr>)
        \<and> 0 < k w \<and> (arm, g) = draw_randint lib (np_random w) 0 (k w))
   \<or> (RandomAlg_choose_arm lib obj w = (Inl ValueError, obj, w) \<and> (k w \<le> 0 \<or> 2 ^ 63 < k w))"
  by (cases "0 < k w \<and> k w \<le> 2 ^ 63")
     (auto simp: RandomAlg_choose_arm_def np_random_randint_def split: prod.splits)

lemma loop_body_RandomAlg_self:
  "self (snd (loop_body lib (RandomAlg lib) tam rw t st)) = self st"
  using RandomAlg_choose_arm_cases [of lib "self st" "glob st"]
  by (auto simp: loop_body_def RandomAlg_def RandomAlg_observe_reward_def
        split: prod.splits sum.splits)

lemma for_range_RandomAlg_self:
  "self (snd (for_range lib (RandomAlg lib) tam rw ts st)) = self st"
proof (induction ts arbitrary: st)
  case Nil
  show ?case by simp
next
  case (Cons t ts)
  obtain r1 st1 where lb: "loop_body lib (RandomAlg lib) tam rw t st = (r1, st1)"
    by (cases "loop_body lib (RandomAlg lib) tam rw t st")
  have s1: "self st1 = self st"
    using loop_body_RandomAlg_self [of lib tam rw t st] lb by simp
  show ?case
    using lb s1 Cons.IH [of st1] by (cases r1) simp_all
qed

lemma run_simulation_RandomAlg_self:
  "self (snd (run_simulation lib (RandomAlg lib) tam n st)) = self st"
proof (cases "n < 0 \<or> 2 ^ 60 \<le> n")
  case True
  then show ?thesis by (simp add: run_simulation_def np_zeros_def)
next
  case False
  let ?st = "\<lparr>self = self st, glob = glob st, arrays = arrays st @ [replicate (nat n) 0]\<rparr>"
  have "self (snd (for_range lib (RandomAlg lib) tam (length (arrays st)) [0..<nat n] ?st)) = self st"
    using for_range_RandomAlg_self [of lib tam "length (arrays st)" "[0..<nat n]" ?st] by simp
  with False show ?thesis
    by (cases "for_range lib (RandomAlg lib) tam (length (arrays st)) [0..<nat n] ?st")
       (auto simp: run_simulation_def np_zeros_def RandomAlg_def RandomAlg_reset_def
          split: sum.splits)
qed

text \<open>
  C5. RandomAlg keeps no pull counts, no step counter and no arm index. Each of its
  methods returns the object as it found it, so at every point of a run, whatever its
  horizon and outcome, the object is the empty one that was constructed, and no attribute
  of it holds counts that sum to anything.
\<close>

theorem RandomAlg_holds_no_counts:
  "fst (snd (RandomAlg_reset obj w)) = obj
   \<and> fst (snd (RandomAlg_choose_arm lib obj w)) = obj
   \<and> fst (snd (RandomAlg_observe_reward arm reward obj w)) = obj
   \<and> self (snd (run_simulation lib (RandomAlg lib) tam n (st\<lparr>self := RandomAlg_init\<rparr>))) = []
   \<and> \<not> spec_counts_sum_to
         (self (snd (run_simulation lib (RandomAlg lib) tam n (st\<lparr>self := RandomAlg_init\<rparr>)))) m"
proof -
  have "fst (snd (RandomAlg_choose_arm lib obj w)) = obj"
    using RandomAlg_choose_arm_cases [of lib obj w] by auto
  moreover have "self (snd (run_simulation lib (RandomAlg lib) tam n (st\<lparr>self := RandomAlg_init\<rparr>))) = []"
    by (simp add: run_simulation_RandomAlg_self RandomAlg_init_def)
  ultimately show ?thesis
    by (simp add: RandomAlg_reset_def RandomAlg_observe_reward_def spec_counts_sum_to_def)
qed

theorem RandomAlg_counts_counterexample:
  "\<not> spec_counts_sum_to
       (self (snd (run_simulation counter_numpy (RandomAlg counter_numpy) 0 1
          \<lparr>self = RandomAlg_init, glob = \<lparr>k = 2, np_random = 0\<rparr>, arrays = [[0, 5]]\<rparr>))) 1"
  by (simp add: eval_defs upt_rec [of 0] spec_counts_sum_to_def)

text \<open>
  C6. While the global \<^verbatim>\<open>k\<close> is positive (and at most \<open>2^63\<close>, the largest bound
  \<^verbatim>\<open>randint\<close> takes), \<^verbatim>\<open>choose_arm\<close> of RandomAlg returns the number that
  \<^verbatim>\<open>np.random.randint(0, k)\<close> draws, unchanged, and that number lies in \<open>[0, k)\<close>;
  the uniform distribution of the draw is numpy's. The object has no attributes, and
  \<^verbatim>\<open>reset\<close> and \<^verbatim>\<open>observe_reward\<close> change neither the object nor the globals, whatever
  arm and reward are observed.
\<close>

theorem RandomAlg_uniform_draw_and_no_state:
  assumes "randint_in_range lib" and "0 < k w" and "k w \<le> 2 ^ 63"
  shows "RandomAlg_choose_arm lib obj w =
           (Inr (fst (draw_randint lib (np_random w) 0 (k w))), obj,
            w\<lparr>np_random := snd (draw_randint lib (np_random w) 0 (k w))\<rparr>)
       \<and> 0 \<le> fst (draw_randint lib (np_random w) 0 (k w))
       \<and> fst (draw_randint lib (np_random w) 0 (k w)) < k w
       \<and> RandomAlg_observe_reward arm reward obj w = (Inr (), obj, w)
       \<and> RandomAlg_reset obj w = (Inr (), obj, w)
       \<and> RandomAlg_init = []"
proof -
  from assms have "0 \<le> fst (draw_randint lib (np_random w) 0 (k w))
       \<and> fst (draw_randint lib (np_random w) 0 (k w)) < k w"
    unfolding randint_in_range_def by blast
  with assms(2,3) show ?thesis
    by (simp add: RandomAlg_choose_arm_draw RandomAlg_observe_reward_def RandomAlg_reset_def
          RandomAlg_init_def)
qed

lemma counter_numpy_in_range: "randint_in_range counter_numpy"
proof -
  have "low + int g mod (high - low) < high" if "low < high" for low high :: int and g :: nat
    using pos_mod_bound [of "high - low" "int g"] that by linarith
  moreover have "low \<le> low + int g mod (high - low)" if "low < high" for low high :: int and g :: nat
    using pos_mod_sign [of "high - low" "int g"] that by linarith
  ultimately show ?thesis
    by (simp add: randint_in_range_def counter_numpy_def)
qed

theorem RandomAlg_uniform_draw_and_no_state_witness:
  "randint_in_range counter_numpy \<and> (0::int) < k \<lparr>k = 10, np_random = 13::nat\<rparr>
   \<and> k \<lparr>k = 10, np_random = 13::nat\<rparr> \<le> 2 ^ 63
   \<and> RandomAlg_choose_arm counter_numpy RandomAlg_init \<lparr>k = 10, np_random = 13\<rparr>
       = (Inr 3, RandomAlg_init, \<lparr>k = 10, np_random = 14\<rparr>)
   \<and> RandomAlg_observe_reward 3 (- 1) RandomAlg_init \<lparr>k = 10, np_random = 14::nat\<rparr>
       = (Inr (), RandomAlg_init, \<lparr>k = 10, np_random = 14\<rparr>)"
proof -
  have h: "(0::int) < k \<lparr>k = 10, np_random = 13::nat\<rparr>" by simp
  have h': "k \<lparr>k = 10, np_random = 13::nat\<rparr> \<le> 2 ^ 63" by simp
  from RandomAlg_uniform_draw_and_no_state [OF counter_numpy_in_range h h', of RandomAlg_init 3 "- 1"]
    counter_numpy_in_range
  show ?thesis
    by (simp add: counter_numpy_def RandomAlg_observe_reward_def RandomAlg_init_def)
qed

lemma loop_body_spy_RandomAlg_chosen:
  assumes "randint_in_range lib"
    and "list_all (chosen_below (k (glob st))) (snd (self st))"
  shows "list_all (chosen_below (k (glob st))) (snd (self (snd (loop_body lib (spy (RandomAlg lib)) tam rw t st))))
       \<and> k (glob (snd (loop_body lib (spy (RandomAlg lib)) tam rw t st))) = k (glob st)"
proof -
  obtain s l where sl: "self st = (s, l)" by (cases "self st")
  from RandomAlg_choose_arm_cases [of lib s "glob st"] show ?thesis
  proof
    assume "\<exists>arm g. RandomAlg_choose_arm lib s (glob st) = (Inr arm, s, (glob st)\<lparr>np_random := g\<rparr>)
        \<and> 0 < k (glob st) \<and> (arm, g) = draw_randint lib (np_random (glob st)) 0 (k (glob st))"
    then obtain arm g where c: "RandomAlg_choose_arm lib s (glob st) = (Inr arm, s, (glob st)\<lparr>np_random := g\<rparr>)"
      and pos: "0 < k (glob st)"
      and d: "(arm, g) = draw_randint lib (np_random (glob st)) 0 (k (glob st))"
      by blast
    from assms(1) pos have "0 \<le> fst (draw_randint lib (np_random (glob st)) 0 (k (glob st)))
        \<and> fst (draw_randint lib (np_random (glob st)) 0 (k (glob st))) < k (glob st)"
      unfolding randint_in_range_def by blast
    with d have rng: "0 \<le> arm \<and> arm < k (glob st)"
      by (metis fst_conv)
    show ?thesis
      using sl c rng assms(2)
      by (auto simp: loop_body_def spy_def RandomAlg_def RandomAlg_observe_reward_def
            chosen_below_def norm_rvs_def np_setitem_def split: prod.splits sum.splits)
  next
    assume "RandomAlg_choose_arm lib s (glob st) = (Inl ValueError, s, glob st)
        \<and> (k (glob st) \<le> 0 \<or> 2 ^ 63 < k (glob st))"
    then show ?thesis
      using sl assms(2)
      by (auto simp: loop_body_def spy_def RandomAlg_def chosen_below_def)
  qed
qed

lemma for_range_spy_RandomAlg_chosen:
  assumes "randint_in_range lib"
    and "list_all (chosen_below (k (glob st))) (snd (self st))"
  shows "list_all (chosen_below (k (glob st))) (snd (self (snd (for_range lib (spy (RandomAlg lib)) tam rw ts st))))
       \<and> k (glob (snd (for_range lib (spy (RandomAlg lib)) tam rw ts st))) = k (glob st)"
  using assms(2)
proof (induction ts arbitrary: st)
  case Nil
  then show ?case by simp
next
  case (Cons t ts)
  obtain r1 st1 where lb: "loop_body lib (spy (RandomAlg lib)) tam rw t st = (r1, st1)"
    by (cases "loop_body lib (spy (RandomAlg lib)) tam rw t st")
  from loop_body_spy_RandomAlg_chosen [OF assms(1) Cons.prems, of tam rw t] lb
  have p1: "list_all (chosen_below (k (glob st))) (snd (self st1))" and k1: "k (glob st1) = k (glob st)"
    by simp_all
  show ?case
  proof (cases r1)
    case (Inl e)
    with lb p1 k1 show ?thesis by simp
  next
    case (Inr u)
    from Cons.IH [of st1] p1 k1
    have "list_all (chosen_below (k (glob st))) (snd (self (snd (for_range lib (spy (RandomAlg lib)) tam rw ts st1))))
       \<and> k (glob (snd (for_range lib (spy (RandomAlg lib)) tam rw ts st1))) = k (glob st)"
      by simp
    with lb Inr show ?thesis by simp
  qed
qed

text \<open>
  C10. RandomAlg draws every arm from \<open>[0, k)\<close> for the global \<^verbatim>\<open>k\<close> at the time of the
  call, which a run never changes: whatever problem instance the run is given and however
  many arms it has, every arm chosen lies in \<open>[0, k)\<close>, and neither the mean vector nor
  its length enters the choice.
\<close>

theorem RandomAlg_range_is_global_k:
  assumes "randint_in_range lib" and "snd (self st) = []"
  shows "list_all (chosen_below (k (glob st)))
           (snd (self (snd (run_simulation lib (spy (RandomAlg lib)) tam n st))))
       \<and> k (glob (snd (run_simulation lib (spy (RandomAlg lib)) tam n st))) = k (glob st)
       \<and> fst (RandomAlg_choose_arm lib obj (glob st)) = fst (np_random_randint lib 0 (k (glob st)) (glob st))"
proof -
  have c: "fst (RandomAlg_choose_arm lib obj (glob st)) = fst (np_random_randint lib 0 (k (glob st)) (glob st))"
    by (simp add: RandomAlg_choose_arm_def split: prod.splits)
  show ?thesis
  proof (cases "n < 0 \<or> 2 ^ 60 \<le> n")
    case True
    with assms(2) c show ?thesis by (simp add: run_simulation_def np_zeros_def)
  next
    case False
    obtain s l where sl: "self st = (s, l)" by (cases "self st")
    with assms(2) have l: "l = []" by simp
    let ?st = "\<lparr>self = (s, [Reset_called]), glob = glob st, arrays = arrays st @ [replicate (nat n) 0]\<rparr>"
    have run: "snd (run_simulation lib (spy (RandomAlg lib)) tam n st)
        = snd (for_range lib (spy (RandomAlg lib)) tam (length (arrays st)) [0..<nat n] ?st)"
      using False sl l
      by (cases "for_range lib (spy (RandomAlg lib)) tam (length (arrays st)) [0..<nat n] ?st")
         (auto simp: run_simulation_def np_zeros_def spy_def RandomAlg_def RandomAlg_reset_def
            split: sum.splits)
    have "list_all (chosen_below (k (glob ?st))) (snd (self ?st))"
      by (simp add: chosen_below_def)
    from for_range_spy_RandomAlg_chosen [OF assms(1) this, of tam "length (arrays st)" "[0..<nat n]"]
    show ?thesis
      using c by (simp only: run) simp
  qed
qed

theorem RandomAlg_range_is_global_k_witness:
  "randint_in_range counter_numpy
   \<and> run_simulation counter_numpy (spy (RandomAlg counter_numpy)) 0 3
        \<lparr>self = (RandomAlg_init, []), glob = \<lparr>k = 10, np_random = 14\<rparr>, arrays = [[0, 5]]\<rparr>
     = (Inl IndexError, \<lparr>self = ([], [Reset_called, Choose_arm_called (Inr 4) 15]),
          glob = \<lparr>k = 10, np_random = 15\<rparr>, arrays = [[0, 5], [0, 0, 0]]\<rparr>)
   \<and> list_all (chosen_below 10) [Reset_called, Choose_arm_called (Inr 4) (15::nat)]"
proof -
  let ?st = "\<lparr>self = (RandomAlg_init, []), glob = \<lparr>k = 10, np_random = 14::nat\<rparr>, arrays = [[0, 5]]\<rparr>"
  have h: "snd (self ?st) = []" by simp
  have run: "run_simulation counter_numpy (spy (RandomAlg counter_numpy)) 0 3 ?st
     = (Inl IndexError, \<lparr>self = ([], [Reset_called, Choose_arm_called (Inr 4) 15]),
          glob = \<lparr>k = 10, np_random = 15\<rparr>, arrays = [[0, 5], [0, 0, 0]]\<rparr>)"
    by (simp add: eval_defs upt_rec [of 0] nat_numeral numeral_3_eq_3)
  from RandomAlg_range_is_global_k [OF counter_numpy_in_range h, of 0 3] run counter_numpy_in_range
  show ?thesis by simp
qed

section \<open>Two runs from the same seed\<close>

lemma loop_body_length:
  "length (arrays (snd (loop_body lib alg tam rw t st))) = length (arrays st)"
  by (auto simp: loop_body_def np_setitem_def split: prod.splits sum.splits)

lemma loop_body_same:
  assumes "self st2 = self st" "glob st2 = glob st"
    and "arrays st2 ! tam2 = arrays st ! tam" "arrays st2 ! rw2 = arrays st ! rw"
    and "rw < length (arrays st)" "rw2 < length (arrays st2)" "tam \<noteq> rw" "tam2 \<noteq> rw2"
  shows "fst (loop_body lib alg tam2 rw2 t st2) = fst (loop_body lib alg tam rw t st)
       \<and> self (snd (loop_body lib alg tam2 rw2 t st2)) = self (snd (loop_body lib alg tam rw t st))
       \<and> glob (snd (loop_body lib alg tam2 rw2 t st2)) = glob (snd (loop_body lib alg tam rw t st))
       \<and> arrays (snd (loop_body lib alg tam2 rw2 t st2)) ! tam2 = arrays (snd (loop_body lib alg tam rw t st)) ! tam
       \<and> arrays (snd (loop_body lib alg tam2 rw2 t st2)) ! rw2 = arrays (snd (loop_body lib alg tam rw t st)) ! rw"
  using assms
  by (auto simp: loop_body_def np_setitem_def split: prod.splits sum.splits)

lemma for_range_same:
  assumes "self st2 = self st" "glob st2 = glob st"
    and "arrays st2 ! tam2 = arrays st ! tam" "arrays st2 ! rw2 = arrays st ! rw"
    and "rw < length (arrays st)" "rw2 < length (arrays st2)" "tam \<noteq> rw" "tam2 \<noteq> rw2"
  shows "fst (for_range lib alg tam2 rw2 ts st2) = fst (for_range lib alg tam rw ts st)
       \<and> self (snd (for_range lib alg tam2 rw2 ts st2)) = self (snd (for_range lib alg tam rw ts st))
       \<and> glob (snd (for_range lib alg tam2 rw2 ts st2)) = glob (snd (for_range lib alg tam rw ts st))
       \<and> arrays (snd (for_range lib alg tam2 rw2 ts st2)) ! rw2 = arrays (snd (for_range lib alg tam rw ts st)) ! rw"
  using assms(1-6)
proof (induction ts arbitrary: st st2)
  case Nil
  then show ?case by simp
next
  case (Cons t ts)
  obtain r1 st1 where lb: "loop_body lib alg tam rw t st = (r1, st1)"
    by (cases "loop_body lib alg tam rw t st")
  obtain r1' st1' where lb': "loop_body lib alg tam2 rw2 t st2 = (r1', st1')"
    by (cases "loop_body lib alg tam2 rw2 t st2")
  from loop_body_same [OF Cons.prems assms(7,8), of lib alg t] lb lb'
  have e: "r1' = r1" "self st1' = self st1" "glob st1' = glob st1"
    "arrays st1' ! tam2 = arrays st1 ! tam" "arrays st1' ! rw2 = arrays st1 ! rw"
    by simp_all
  have len: "rw < length (arrays st1)" "rw2 < length (arrays st1')"
    using loop_body_length [of lib alg tam rw t st] loop_body_length [of lib alg tam2 rw2 t st2]
      lb lb' Cons.prems(5,6) by simp_all
  show ?case
  proof (cases r1)
    case (Inl err)
    with lb lb' e show ?thesis by simp
  next
    case (Inr u)
    with lb lb' e Cons.IH [OF e(2-5) len] show ?thesis by simp
  qed
qed

lemma run_simulation_same:
  assumes "self st2 = self st" "glob st2 = glob st" "arrays st2 ! tam2 = arrays st ! tam"
    and "tam < length (arrays st)" "tam2 < length (arrays st2)"
  shows "reward_trace (run_simulation lib alg tam2 n st2) = reward_trace (run_simulation lib alg tam n st)
       \<and> self (snd (run_simulation lib alg tam2 n st2)) = self (snd (run_simulation lib alg tam n st))
       \<and> glob (snd (run_simulation lib alg tam2 n st2)) = glob (snd (run_simulation lib alg tam n st))"
proof (cases "n < 0 \<or> 2 ^ 60 \<le> n")
  case True
  with assms show ?thesis
    by (simp add: run_simulation_def np_zeros_def reward_trace_def)
next
  case False
  obtain r s w where rs: "reset alg (self st) (glob st) = (r, s, w)"
    by (cases "reset alg (self st) (glob st)")
  show ?thesis
  proof (cases r)
    case (Inl e)
    with False rs assms show ?thesis
      by (simp add: run_simulation_def np_zeros_def reward_trace_def)
  next
    case (Inr u)
    let ?a = "\<lparr>self = s, glob = w, arrays = arrays st @ [replicate (nat n) 0]\<rparr>"
    let ?b = "\<lparr>self = s, glob = w, arrays = arrays st2 @ [replicate (nat n) 0]\<rparr>"
    obtain ra sa where fa: "for_range lib alg tam (length (arrays st)) [0..<nat n] ?a = (ra, sa)"
      by (cases "for_range lib alg tam (length (arrays st)) [0..<nat n] ?a")
    obtain rb sb where fb: "for_range lib alg tam2 (length (arrays st2)) [0..<nat n] ?b = (rb, sb)"
      by (cases "for_range lib alg tam2 (length (arrays st2)) [0..<nat n] ?b")
    have "fst (for_range lib alg tam2 (length (arrays st2)) [0..<nat n] ?b)
            = fst (for_range lib alg tam (length (arrays st)) [0..<nat n] ?a)
       \<and> self (snd (for_range lib alg tam2 (length (arrays st2)) [0..<nat n] ?b))
            = self (snd (for_range lib alg tam (length (arrays st)) [0..<nat n] ?a))
       \<and> glob (snd (for_range lib alg tam2 (length (arrays st2)) [0..<nat n] ?b))
            = glob (snd (for_range lib alg tam (length (arrays st)) [0..<nat n] ?a))
       \<and> arrays (snd (for_range lib alg tam2 (length (arrays st2)) [0..<nat n] ?b)) ! length (arrays st2)
            = arrays (snd (for_range lib alg tam (length (arrays st)) [0..<nat n] ?a)) ! length (arrays st)"
      using assms(3-5)
      by (intro for_range_same) (simp_all add: nth_append)
    with fa fb have e: "rb = ra" "self sb = self sa" "glob sb = glob sa"
      "arrays sb ! length (arrays st2) = arrays sa ! length (arrays st)"
      by simp_all
    have a: "run_simulation lib alg tam n st
        = (case ra of Inl e \<Rightarrow> (Inl e, sa) | Inr v \<Rightarrow> (Inr (length (arrays st)), sa))"
      using False rs Inr fa by (simp add: run_simulation_def np_zeros_def split: sum.splits)
    have b: "run_simulation lib alg tam2 n st2
        = (case rb of Inl e \<Rightarrow> (Inl e, sb) | Inr v \<Rightarrow> (Inr (length (arrays st2)), sb))"
      using False rs Inr fb assms(1,2) by (simp add: run_simulation_def np_zeros_def split: sum.splits)
    show ?thesis
      using e by (simp add: a b reward_trace_def split: sum.splits)
  qed
qed


lemma globals_seeded_eq:
  fixes w w2 :: "'g globals"
  assumes "k w2 = k w"
  shows "w2\<lparr>np_random := g\<rparr> = w\<lparr>np_random := g\<rparr>"
  using assms by (cases w; cases w2) simp

text \<open>
  C7. The reward trace of a run depends on nothing but the strategy and its state, the
  global \<^verbatim>\<open>k\<close>, the contents of the mean vector, the horizon and the state of the
  generator. Two runs that start right after \<^verbatim>\<open>np.random.seed\<close> with the same valid
  seed, on the same inputs, return identical traces (or raise the same exception),
  whatever the generator did before and whatever else the array store holds.
\<close>

theorem run_simulation_same_seed_same_trace:
  assumes "0 \<le> sd" and "sd < 2 ^ 32"
    and "self st2 = self st" and "k (glob st2) = k (glob st)"
    and "arrays st2 ! tam2 = arrays st ! tam"
    and "tam < length (arrays st)" and "tam2 < length (arrays st2)"
  shows "reward_trace (run_simulation lib alg tam2 n (st2\<lparr>glob := snd (np_random_seed lib sd (glob st2))\<rparr>))
       = reward_trace (run_simulation lib alg tam n (st\<lparr>glob := snd (np_random_seed lib sd (glob st))\<rparr>))"
proof -
  have g: "snd (np_random_seed lib sd (glob st2)) = snd (np_random_seed lib sd (glob st))"
    using assms(1,2) globals_seeded_eq [OF assms(4)] by (simp add: np_random_seed_def)
  show ?thesis
    using run_simulation_same [of "st2\<lparr>glob := snd (np_random_seed lib sd (glob st2))\<rparr>"
        "st\<lparr>glob := snd (np_random_seed lib sd (glob st))\<rparr>" tam2 tam lib alg n] assms(3,5,6,7) g
    by simp
qed

theorem run_simulation_same_seed_same_trace_witness:
  "(0::int) \<le> 2077 \<and> (2077::int) < 2 ^ 32
   \<and> run_simulation counter_numpy (RandomAlg counter_numpy) 0 2
        \<lparr>self = RandomAlg_init,
         glob = snd (np_random_seed counter_numpy 2077 \<lparr>k = 2, np_random = 0\<rparr>),
         arrays = [[0, 5]]\<rparr>
     = (Inr 1, \<lparr>self = [], glob = \<lparr>k = 2, np_random = 2083\<rparr>, arrays = [[0, 5], [6, - 1]]\<rparr>)
   \<and> reward_trace (run_simulation counter_numpy (RandomAlg counter_numpy) 0 2
        \<lparr>self = [],
         glob = snd (np_random_seed counter_numpy 2077 \<lparr>k = 2, np_random = 2083\<rparr>),
         arrays = [[0, 5], [6, - 1]]\<rparr>)
     = Inr [6, - 1]"
proof -
  let ?st = "\<lparr>self = RandomAlg_init, glob = \<lparr>k = 2, np_random = 0::nat\<rparr>, arrays = [[0, 5]]\<rparr>"
  let ?st2 = "\<lparr>self = [], glob = \<lparr>k = 2, np_random = 2083::nat\<rparr>, arrays = [[0, 5], [6, - 1]]\<rparr>"
  have h1: "(0::int) \<le> 2077" and h2: "(2077::int) < 2 ^ 32" by simp_all
  have h3: "self ?st2 = self ?st" by (simp add: RandomAlg_init_def)
  have h4: "k (glob ?st2) = k (glob ?st)" by simp
  have h5: "arrays ?st2 ! 0 = arrays ?st ! 0" by simp
  have h6: "0 < length (arrays ?st)" and h7: "0 < length (arrays ?st2)" by simp_all
  have run: "run_simulation counter_numpy (RandomAlg counter_numpy) 0 2
        (?st\<lparr>glob := snd (np_random_seed counter_numpy 2077 (glob ?st))\<rparr>)
     = (Inr 1, ?st2)"
    by (simp add: eval_defs np_random_seed_def upt_rec [of 0] upt_rec [of "Suc 0"]
          nat_numeral numeral_2_eq_2)
  from run_simulation_same_seed_same_trace [OF h1 h2 h3 h4 h5 h6 h7, of counter_numpy
      "RandomAlg counter_numpy" 2] run
  show ?thesis by (simp add: reward_trace_def)
qed

section \<open>The classes left as exercises\<close>

text \<open>
  C3. No constructor checks its hyperparameter. For every value, also \<open>m \<le> 0\<close>, an
  \<open>epsilon\<close> outside \<open>[0, 1]\<close> and a negative \<open>alpha\<close>, construction returns an object
  whose only attribute is the hyperparameter, stored as it was given: nothing is rejected
  and nothing is clamped.
\<close>

theorem constructors_store_hyperparameter:
  "ExploreThenCommit_init m = Inr [(''m'', PyInt m)]
   \<and> EpsilonGreedy_init epsilon = Inr [(''epsilon'', PyFloat epsilon)]
   \<and> GradientBandit_init alpha = Inr [(''alpha'', PyFloat alpha)]
   \<and> GradientBanditBaseline_init alpha = Inr [(''alpha'', PyFloat alpha)]"
  by (simp add: ExploreThenCommit_init_def EpsilonGreedy_init_def GradientBandit_init_def
        GradientBanditBaseline_init_def setattr_def)

theorem ExploreThenCommit_init_accepts_zero_counterexample:
  "ExploreThenCommit_init 0 = Inr [(''m'', PyInt 0)]"
  by (simp add: ExploreThenCommit_init_def setattr_def)

text \<open>
  C4. \<^verbatim>\<open>ExploreThenCommit(m=1)\<close>, reset and asked for its first arm with \<open>k = 10\<close>:
  \<^verbatim>\<open>choose_arm\<close> returns \<^verbatim>\<open>None\<close>, not arm 0, and the object still holds \<open>m\<close> alone.
\<close>

theorem ExploreThenCommit_choose_arm_returns_None:
  "ExploreThenCommit_init 1 = Inr [(''m'', PyInt 1)]
   \<and> ExploreThenCommit_reset [(''m'', PyInt 1)] \<lparr>k = 10, np_random = 0::nat\<rparr>
       = (Inr PyNone, [(''m'', PyInt 1)], \<lparr>k = 10, np_random = 0\<rparr>)
   \<and> ExploreThenCommit_choose_arm [(''m'', PyInt 1)] \<lparr>k = 10, np_random = 0::nat\<rparr>
       = (Inr PyNone, [(''m'', PyInt 1)], \<lparr>k = 10, np_random = 0\<rparr>)
   \<and> ExploreThenCommit_observe_reward 0 1 [(''m'', PyInt 1)] \<lparr>k = 10, np_random = 0::nat\<rparr>
       = (Inr PyNone, [(''m'', PyInt 1)], \<lparr>k = 10, np_random = 0\<rparr>)"
  by (simp add: ExploreThenCommit_init_def ExploreThenCommit_reset_def
        ExploreThenCommit_choose_arm_def ExploreThenCommit_observe_reward_def setattr_def)

end
